theory Spec2Isabelle
  imports Complex_Main
begin

section \<open>Strings\<close>

text \<open>
  JavaScript strings are modelled as \<open>string\<close>. The helpers below are the few methods of
  \<open>String.prototype\<close> that the program calls. Letters and white space outside ASCII are
  left as they are by \<open>toLowerCase\<close> and \<open>trim\<close>.
\<close>

fun startsWith :: "string \<Rightarrow> string \<Rightarrow> bool" where
  "startsWith s [] = True"
| "startsWith [] (p # ps) = False"
| "startsWith (c # cs) (p # ps) = (c = p \<and> startsWith cs ps)"

text \<open>\<open>s.includes(sub)\<close>\<close>

fun includes_str :: "string \<Rightarrow> string \<Rightarrow> bool" where
  "includes_str [] sub = (sub = [])"
| "includes_str (c # cs) sub = (startsWith (c # cs) sub \<or> includes_str cs sub)"

definition lower_char :: "char \<Rightarrow> char" where
  "lower_char c =
     (let n = (of_char c :: nat) in if 65 \<le> n \<and> n \<le> 90 then char_of (n + 32) else c)"

definition toLowerCase :: "string \<Rightarrow> string" where
  "toLowerCase s = map lower_char s"

definition isWhiteSpace :: "char \<Rightarrow> bool" where
  "isWhiteSpace c = (let n = (of_char c :: nat) in n = 32 \<or> (9 \<le> n \<and> n \<le> 13))"

definition trim :: "string \<Rightarrow> string" where
  "trim s = rev (dropWhile isWhiteSpace (rev (dropWhile isWhiteSpace s)))"


section \<open>Retry with backoff\<close>

text \<open>
  A value that a rejected promise carries: an \<open>Error\<close> object with its message, a
  \<open>SyntaxError\<close> (what \<open>JSON.parse\<close> throws), or a thrown string.
\<close>

datatype thrown = Error string | SyntaxError string | Thrown string

text \<open>\<open>error?.message || String(error)\<close>\<close>

fun errorStr :: "thrown \<Rightarrow> string" where
  "errorStr (Error message) = (if message \<noteq> [] then message else ''Error'')"
| "errorStr (SyntaxError message) = (if message \<noteq> [] then message else ''SyntaxError'')"
| "errorStr (Thrown s) = s"

definition isRateLimit :: "thrown \<Rightarrow> bool" where
  "isRateLimit error =
     (includes_str (errorStr error) ''429'' \<or> includes_str (errorStr error) ''Quota'')"

text \<open>
  The operation is a closure with effects of its own: a function of the world \<open>'w\<close> that
  returns its outcome (\<open>Inl\<close> the rejection) and the next world. What
  \<open>retryWithBackoff\<close> does besides is recorded in a trace: each call of the operation and
  each \<open>setTimeout\<close> wait with its milliseconds.
\<close>

datatype event = Invoked | Waited nat

text \<open>
  The \<open>for\<close> loop of \<open>retryWithBackoff\<close>, from the iteration with counter \<open>i\<close> and the
  current \<open>delay\<close>.
\<close>

function retry_loop ::
  "('w \<Rightarrow> (thrown + 'a) \<times> 'w) \<Rightarrow> int \<Rightarrow> int \<Rightarrow> nat \<Rightarrow> 'w \<Rightarrow> event list
     \<Rightarrow> (thrown + 'a) \<times> 'w \<times> event list" where
  "retry_loop operation maxRetries i delay w tr =
     (if i < maxRetries then
        (case operation w of
           (Inr v, w') \<Rightarrow> (Inr v, w', tr @ [Invoked])
         | (Inl error, w') \<Rightarrow>
             if isRateLimit error \<and> i < maxRetries - 1
             then retry_loop operation maxRetries (i + 1) (delay * 2) w'
                    (tr @ [Invoked, Waited delay])
             else (Inl error, w', tr @ [Invoked]))
      else (Inl (Error ''Server-Limit erreicht.''), w, tr))"
  by pat_completeness auto
termination
  by (relation "measure (\<lambda>(operation, maxRetries, i, delay, w, tr). nat (maxRetries - i))") auto

definition retryWithBackoff ::
  "('w \<Rightarrow> (thrown + 'a) \<times> 'w) \<Rightarrow> int \<Rightarrow> 'w \<Rightarrow> (thrown + 'a) \<times> 'w \<times> event list" where
  "retryWithBackoff operation maxRetries w = retry_loop operation maxRetries 0 3000 w []"




text \<open>Two operations over a call counter: one that is rate-limited twice and then
  answers, one that is rate-limited for ever.\<close>

definition flaky :: "nat \<Rightarrow> (thrown + string) \<times> nat" where
  "flaky n = (if n < 2 then Inl (Error ''429 Too Many Requests'') else Inr ''Rezept'', Suc n)"


section \<open>Persistent store\<close>

text \<open>
  The text stored under a key of \<open>localStorage\<close>. \<open>Json v\<close> is the text
  \<open>JSON.stringify(v)\<close> of a value \<open>v\<close> of the TypeScript type the program reads the key
  at; \<open>Malformed s\<close> is a text \<open>s\<close> that \<open>JSON.parse\<close> rejects (the empty text is one).
  Writes are taken to succeed: the quota of the browser is not modelled.
\<close>

datatype 'a blob = Malformed string | Json 'a

fun truthy :: "'a blob \<Rightarrow> bool" where
  "truthy (Malformed s) = (s \<noteq> [])"
| "truthy (Json v) = True"

fun JSON_parse :: "'a blob \<Rightarrow> thrown + 'a" where
  "JSON_parse (Malformed s) = Inl (SyntaxError ''Unexpected token'')"
| "JSON_parse (Json v) = Inr v"

type_synonym number = rat

record Nutrition =
  calories :: string
  protein :: string
  carbs :: string
  fat :: string

record Recipe =
  recipe_id :: string
  recipeName :: string
  description :: string
  ingredients :: "string list"
  instructions :: "string list"
  servings :: number
  difficulty :: "string option"
  createdAt :: number
  nutrition :: "Nutrition option"

record ShoppingItem =
  item_id :: string
  item_text :: string
  completed :: bool

record Draft =
  draft_prompt :: string
  draft_difficulty :: "string option"
  draft_servings :: "string option"
  draft_wishes :: "string option"

record localStorage =
  savedRecipes :: "Recipe list blob option"
  shoppingList :: "ShoppingItem list blob option"
  recipeDraft :: "Draft blob option"

text \<open>
  \<open>try { return data ? JSON.parse(data) : []; } catch { return []; }\<close>, once for each
  collection.
\<close>

definition getShoppingList :: "localStorage \<Rightarrow> thrown + ShoppingItem list" where
  "getShoppingList ls =
     (case shoppingList ls of
        None \<Rightarrow> Inr []
      | Some data \<Rightarrow>
          (case (if truthy data then JSON_parse data else Inr []) of
             Inr v \<Rightarrow> Inr v
           | Inl e \<Rightarrow> Inr []))"

definition getSavedRecipes :: "localStorage \<Rightarrow> thrown + Recipe list" where
  "getSavedRecipes ls =
     (case savedRecipes ls of
        None \<Rightarrow> Inr []
      | Some data \<Rightarrow>
          (case (if truthy data then JSON_parse data else Inr []) of
             Inr v \<Rightarrow> Inr v
           | Inl e \<Rightarrow> Inr []))"

definition saveShoppingList :: "ShoppingItem list \<Rightarrow> localStorage \<Rightarrow> localStorage" where
  "saveShoppingList list ls = ls\<lparr>shoppingList := Some (Json list)\<rparr>"



text \<open>\<open>xs.findIndex(p)\<close>: the index of the first element that satisfies \<open>p\<close>, or \<open>-1\<close>.\<close>

fun findIndex :: "('a \<Rightarrow> bool) \<Rightarrow> 'a list \<Rightarrow> int" where
  "findIndex p [] = - 1"
| "findIndex p (x # xs) =
     (if p x then 0 else (let j = findIndex p xs in if j < 0 then - 1 else j + 1))"

text \<open>
  \<open>toggleShoppingItem\<close>: \<open>list.find\<close> returns the first item with the identifier, an
  object of the array itself, so the assignment to its \<open>completed\<close> changes the array at
  that index.
\<close>

definition toggleShoppingItem :: "string \<Rightarrow> localStorage \<Rightarrow> thrown + localStorage" where
  "toggleShoppingItem ident ls =
     (case getShoppingList ls of
        Inl e \<Rightarrow> Inl e
      | Inr list \<Rightarrow>
          (let index = findIndex (\<lambda>i. item_id i = ident) list in
           if index < 0 then Inr ls
           else (let item = list ! nat index in
                 Inr (saveShoppingList
                        (list[nat index := item\<lparr>completed := \<not> completed item\<rparr>]) ls))))"

text \<open>
  \<open>saveRecipeToStorage\<close>; \<open>answer\<close> is what the user answers if \<open>confirm\<close> is shown. The
  index assigned to is the one \<open>findIndex\<close> returns after \<open>some\<close> has found an entry; an
  assignment at \<open>-1\<close> would add no element to the array.
\<close>

definition saveRecipeToStorage ::
  "bool \<Rightarrow> Recipe \<Rightarrow> localStorage \<Rightarrow> thrown + bool \<times> localStorage" where
  "saveRecipeToStorage answer r ls =
     (case getSavedRecipes ls of
        Inl e \<Rightarrow> Inl e
      | Inr saved \<Rightarrow>
          if list_ex (\<lambda>sr. recipeName sr = recipeName r) saved then
            if \<not> answer then Inr (False, ls)
            else (let index = findIndex (\<lambda>sr. recipeName sr = recipeName r) saved;
                      saved' = (if index < 0 then saved else saved[nat index := r])
                  in Inr (True, ls\<lparr>savedRecipes := Some (Json saved')\<rparr>))
          else Inr (True, ls\<lparr>savedRecipes := Some (Json (saved @ [r]))\<rparr>))"

definition removeRecipeFromStorage :: "string \<Rightarrow> localStorage \<Rightarrow> thrown + localStorage" where
  "removeRecipeFromStorage name ls =
     (case getSavedRecipes ls of
        Inl e \<Rightarrow> Inl e
      | Inr saved \<Rightarrow>
          Inr (ls\<lparr>savedRecipes :=
                   Some (Json (filter (\<lambda>r. toLowerCase (recipeName r) \<noteq> toLowerCase name)
                                 saved))\<rparr>))"

subsection \<open>Draft\<close>





subsection \<open>Notions of the specification\<close>

text \<open>The invariant of the shopping list: no two items have the same text up to case.\<close>

definition no_case_duplicates :: "ShoppingItem list \<Rightarrow> bool" where
  "no_case_duplicates list = distinct (map (\<lambda>item. toLowerCase (item_text item)) list)"


definition toggled :: "ShoppingItem \<Rightarrow> ShoppingItem" where
  "toggled item = item\<lparr>completed := \<not> completed item\<rparr>"


subsection \<open>Sample states\<close>

definition store0 :: localStorage where
  "store0 = \<lparr>savedRecipes = None, shoppingList = Some (Malformed ''[{oops''), recipeDraft = None\<rparr>"

definition shopping0 :: "ShoppingItem list" where
  "shopping0 = [\<lparr>item_id = ''a1'', item_text = ''Mehl'', completed = False\<rparr>,
                \<lparr>item_id = ''b2'', item_text = ''Eier'', completed = True\<rparr>]"

definition store1 :: localStorage where
  "store1 = \<lparr>savedRecipes = None, shoppingList = Some (Json shopping0), recipeDraft = None\<rparr>"

definition pasta :: Recipe where
  "pasta = \<lparr>recipe_id = ''r1'', recipeName = ''Pasta'', description = ''Nudeln'',
             ingredients = [''500g Nudeln''], instructions = [''Kochen''], servings = 4,
             difficulty = None, createdAt = 1, nutrition = None\<rparr>"

definition pasta_again :: Recipe where
  "pasta_again = pasta\<lparr>recipe_id := ''r2'', recipeName := ''pasta'', createdAt := 2\<rparr>"

definition book :: localStorage where
  "book = \<lparr>savedRecipes = Some (Json [pasta]), shoppingList = None, recipeDraft = None\<rparr>"



section \<open>Quantity scaling\<close>

text \<open>
  The regular expression \<open>/(\d+(?:[.,]\d+)?)/g\<close>: \<open>match_number s\<close> is its match at the
  start of \<open>s\<close> with the text after it. Both quantifiers are greedy and the optional group
  is tried before it is given up, so the match is the longest run of digits, with a separator
  and the longest run of digits after it where there is one.
\<close>

definition isDigit :: "char \<Rightarrow> bool" where
  "isDigit c = (let n = (of_char c :: nat) in 48 \<le> n \<and> n \<le> 57)"

definition isSep :: "char \<Rightarrow> bool" where
  "isSep c = (c = CHR ''.'' \<or> c = CHR '','')"

definition match_number :: "string \<Rightarrow> (string \<times> string) option" where
  "match_number s =
     (let ip = takeWhile isDigit s; rest = dropWhile isDigit s in
      if ip = [] then None
      else (case rest of
              [] \<Rightarrow> Some (ip, rest)
            | c # cs \<Rightarrow>
                if isSep c \<and> takeWhile isDigit cs \<noteq> []
                then Some (ip @ c # takeWhile isDigit cs, dropWhile isDigit cs)
                else Some (ip, rest)))"

text \<open>
  \<open>line.replace(regex, callback)\<close> with the global flag walks the line from the left: a
  match is replaced by what the callback returns and the walk goes on behind it; a character
  where no match starts is copied. \<open>segments\<close> is the walk; \<open>replace_matches\<close> rewrites
  the matches and puts the line together again.
\<close>

datatype segment = Lit char | Match string

function segments :: "string \<Rightarrow> segment list" where
  "segments [] = []"
| "segments (c # cs) =
     (case match_number (c # cs) of
        None \<Rightarrow> Lit c # segments cs
      | Some (m, rest) \<Rightarrow> Match m # segments rest)"
  by pat_completeness auto
termination
proof (relation "measure length")
  fix c :: char and cs x2 m rest
  assume some: "match_number (c # cs) = Some x2" and x2: "(m, rest) = x2"
  let ?s = "c # cs"
  have sum: "length (takeWhile isDigit ?s) + length (dropWhile isDigit ?s) = length ?s"
    by (metis length_append takeWhile_dropWhile_id)
  have ip: "takeWhile isDigit ?s \<noteq> []"
    using some by (auto simp: match_number_def Let_def split: if_splits)
  then have "0 < length (takeWhile isDigit ?s)"
    by simp
  with sum have lt: "length (dropWhile isDigit ?s) < length ?s"
    by linarith
  have "length rest < length ?s"
  proof (cases "dropWhile isDigit ?s")
    case Nil
    with some x2 ip have "rest = []"
      by (auto simp: match_number_def Let_def)
    then show ?thesis by simp
  next
    case (Cons d ds)
    have "length (dropWhile isDigit ds) \<le> length ds"
      by (rule length_dropWhile_le)
    moreover have "rest = d # ds \<or> rest = dropWhile isDigit ds"
      using some x2 ip Cons by (auto simp: match_number_def Let_def split: if_splits)
    moreover have "length (d # ds) < length ?s"
      using lt Cons by simp
    ultimately show ?thesis
      by auto
  qed
  then show "(rest, c # cs) \<in> measure length"
    by simp
qed simp_all

definition segment_text :: "segment \<Rightarrow> string" where
  "segment_text seg = (case seg of Lit c \<Rightarrow> [c] | Match m \<Rightarrow> m)"

definition flatten :: "segment list \<Rightarrow> string" where
  "flatten segs = concat (map segment_text segs)"













subsection \<open>Notions of the specification\<close>

text \<open>
  A run of digits; a number as the regular expression matches it (digits, or digits, a
  separator and digits); its value, read as the callback reads it, with \<open>,\<close> for \<open>.\<close>.
\<close>

definition digits :: "string \<Rightarrow> bool" where
  "digits s = (s \<noteq> [] \<and> list_all isDigit s)"

definition number :: "string \<Rightarrow> bool" where
  "number m =
     (case dropWhile isDigit m of
        [] \<Rightarrow> digits m
      | c # fp \<Rightarrow> digits (takeWhile isDigit m) \<and> isSep c \<and> digits fp)"












section \<open>Properties of the retry wrapper\<close>

declare retry_loop.simps [simp del]






text \<open>The error behind the loop is what a caller gets who allows no attempt at all.\<close>

lemma retry_no_attempts:
  "maxRetries \<le> 0 \<Longrightarrow>
     retryWithBackoff operation maxRetries w = (Inl (Error ''Server-Limit erreicht.''), w, [])"
  unfolding retryWithBackoff_def by (subst retry_loop.simps) simp




text \<open>
  C4: an operation that fails with a rate-limit error on its first and second call and
  answers on the third: \<open>retryWithBackoff\<close> with three attempts returns the answer; it has
  called the operation three times, with a wait of 3000 ms before the second call and of
  6000 ms before the third.
\<close>

theorem retry_twice_then_success:
  assumes "operation w0 = (Inl e1, w1)" and "isRateLimit e1"
    and "operation w1 = (Inl e2, w2)" and "isRateLimit e2"
    and "operation w2 = (Inr v, w3)"
  shows "retryWithBackoff operation 3 w0 =
           (Inr v, w3, [Invoked, Waited 3000, Invoked, Waited 6000, Invoked])"
  using assms unfolding retryWithBackoff_def
  by (simp add: retry_loop.simps [of operation 3])

theorem retry_twice_then_success_witness:
  "retryWithBackoff flaky 3 0 =
     (Inr ''Rezept'', 3, [Invoked, Waited 3000, Invoked, Waited 6000, Invoked])"
  using retry_twice_then_success [of flaky 0 "Error ''429 Too Many Requests''" 1
      "Error ''429 Too Many Requests''" 2 "''Rezept''" 3]
  by (simp add: flaky_def isRateLimit_def)

section \<open>Properties of the store\<close>

subsection \<open>Reading a collection\<close>

lemma get_shopping_cases:
  "getShoppingList ls = Inr (case shoppingList ls of Some (Json v) \<Rightarrow> v | _ \<Rightarrow> [])"
  by (simp add: getShoppingList_def split: option.splits blob.splits)

lemma get_recipes_cases:
  "getSavedRecipes ls = Inr (case savedRecipes ls of Some (Json v) \<Rightarrow> v | _ \<Rightarrow> [])"
  by (simp add: getSavedRecipes_def split: option.splits blob.splits)

lemma get_shopping_nonempty:
  "getShoppingList ls = Inr list \<Longrightarrow> list \<noteq> [] \<Longrightarrow> shoppingList ls = Some (Json list)"
  using get_shopping_cases [of ls] by (auto split: option.splits blob.splits)

lemma get_shopping_saved: "getShoppingList (saveShoppingList list ls) = Inr list"
  by (simp add: getShoppingList_def saveShoppingList_def)

text \<open>
  C5: reading a collection never fails. \<open>getSavedRecipes\<close> and \<open>getShoppingList\<close> return
  a list for every state of the store, and the empty list when the key is absent or its
  text is not valid JSON.
\<close>

theorem list_fails_soft:
  "(\<forall>e. getSavedRecipes ls \<noteq> Inl e) \<and> (\<forall>e. getShoppingList ls \<noteq> Inl e) \<and>
   (savedRecipes ls = None \<or> (\<exists>s. savedRecipes ls = Some (Malformed s))
      \<longrightarrow> getSavedRecipes ls = Inr []) \<and>
   (shoppingList ls = None \<or> (\<exists>s. shoppingList ls = Some (Malformed s))
      \<longrightarrow> getShoppingList ls = Inr [])"
proof (intro conjI allI impI)
  fix e show "getSavedRecipes ls \<noteq> Inl e"
    by (simp add: get_recipes_cases)
next
  fix e show "getShoppingList ls \<noteq> Inl e"
    by (simp add: get_shopping_cases)
next
  assume "savedRecipes ls = None \<or> (\<exists>s. savedRecipes ls = Some (Malformed s))"
  then show "getSavedRecipes ls = Inr []"
    by (auto simp: getSavedRecipes_def)
next
  assume "shoppingList ls = None \<or> (\<exists>s. shoppingList ls = Some (Malformed s))"
  then show "getShoppingList ls = Inr []"
    by (auto simp: getShoppingList_def)
qed

theorem list_fails_soft_witness:
  "getSavedRecipes store0 = Inr [] \<and> getShoppingList store0 = Inr []"
  using list_fails_soft [of store0] by (simp add: store0_def)

subsection \<open>The first match in an array\<close>

lemma findIndex_ge: "- 1 \<le> findIndex p xs"
  by (induction xs) (auto simp: Let_def)

lemma findIndex_neg_iff: "findIndex p xs < 0 \<longleftrightarrow> (\<forall>x\<in>set xs. \<not> p x)"
  using findIndex_ge [of p] by (induction xs) (auto simp: Let_def)

lemma findIndex_found:
  "0 \<le> findIndex p xs \<Longrightarrow>
     nat (findIndex p xs) < length xs \<and> p (xs ! nat (findIndex p xs)) \<and>
     (\<forall>i<nat (findIndex p xs). \<not> p (xs ! i))"
proof (induction xs)
  case Nil
  then show ?case by simp
next
  case (Cons x xs)
  show ?case
  proof (cases "p x")
    case True
    then show ?thesis by simp
  next
    case False
    with Cons.prems have j: "0 \<le> findIndex p xs"
      by (auto simp: Let_def split: if_splits)
    then have eq: "nat (findIndex p (x # xs)) = Suc (nat (findIndex p xs))"
      using False by (simp add: Let_def nat_add_distrib)
    from Cons.IH [OF j] False show ?thesis
      unfolding eq by (auto simp: less_Suc_eq_0_disj)
  qed
qed

lemma findIndex_first:
  assumes "j < length xs" "p (xs ! j)" "\<forall>i<j. \<not> p (xs ! i)"
  shows "findIndex p xs = int j"
proof -
  have "\<not> findIndex p xs < 0"
    using assms by (auto simp: findIndex_neg_iff)
  then have ge: "0 \<le> findIndex p xs" by simp
  from findIndex_found [OF ge] assms show ?thesis
    by (metis int_nat_eq ge linorder_neqE_nat)
qed

lemma first_match_exists:
  assumes "\<exists>x\<in>set xs. p x"
  shows "\<exists>j<length xs. p (xs ! j) \<and> (\<forall>i<j. \<not> p (xs ! i))"
proof -
  have "\<not> findIndex p xs < 0"
    using assms by (simp add: findIndex_neg_iff)
  then have "0 \<le> findIndex p xs" by simp
  from findIndex_found [OF this] show ?thesis by blast
qed

subsection \<open>Toggling an item\<close>

lemma toggle_absent:
  assumes "getShoppingList ls = Inr list" and "\<forall>i\<in>set list. item_id i \<noteq> ident"
  shows "toggleShoppingItem ident ls = Inr ls"
proof -
  have "findIndex (\<lambda>i. item_id i = ident) list < 0"
    using assms(2) by (simp add: findIndex_neg_iff)
  with assms(1) show ?thesis
    by (simp add: toggleShoppingItem_def)
qed

lemma toggle_present:
  assumes "getShoppingList ls = Inr list"
    and "j < length list" and "item_id (list ! j) = ident"
    and "\<forall>i<j. item_id (list ! i) \<noteq> ident"
  shows "toggleShoppingItem ident ls = Inr (saveShoppingList (list[j := toggled (list ! j)]) ls)"
proof -
  have "findIndex (\<lambda>i. item_id i = ident) list = int j"
    using assms(2-4) by (intro findIndex_first) auto
  with assms(1) show ?thesis
    by (simp add: toggleShoppingItem_def toggled_def Let_def)
qed

text \<open>
  C10: \<open>toggleShoppingItem\<close> flips the \<open>completed\<close> flag of the first item with the
  identifier and nothing else: the list keeps its length, its identifiers and its texts in
  order, every other item is what it was, the other keys of the store are untouched, and a
  second toggle with the same identifier gives the store back. With no item of that
  identifier the store is unchanged.
\<close>

theorem toggle_frame:
  assumes "getShoppingList ls = Inr list"
  shows "\<exists>ls' list'. toggleShoppingItem ident ls = Inr ls' \<and> getShoppingList ls' = Inr list' \<and>
           length list' = length list \<and>
           map item_id list' = map item_id list \<and> map item_text list' = map item_text list \<and>
           (\<forall>j<length list.
              list' ! j = (if item_id (list ! j) = ident \<and> (\<forall>i<j. item_id (list ! i) \<noteq> ident)
                           then toggled (list ! j) else list ! j)) \<and>
           savedRecipes ls' = savedRecipes ls \<and> recipeDraft ls' = recipeDraft ls \<and>
           toggleShoppingItem ident ls' = Inr ls \<and>
           ((\<forall>i\<in>set list. item_id i \<noteq> ident) \<longrightarrow> ls' = ls)"
proof (cases "\<exists>i\<in>set list. item_id i = ident")
  case False
  then have none: "\<forall>i\<in>set list. item_id i \<noteq> ident" by simp
  then have never: "\<And>j. j < length list \<Longrightarrow> item_id (list ! j) \<noteq> ident"
    by simp
  have "toggleShoppingItem ident ls = Inr ls"
    by (rule toggle_absent [OF assms none])
  with assms never show ?thesis
    by simp
next
  case True
  then obtain j where j: "j < length list" "item_id (list ! j) = ident"
      "\<forall>i<j. item_id (list ! i) \<noteq> ident"
    using first_match_exists [of list "\<lambda>i. item_id i = ident"] by blast
  define list' where "list' = list[j := toggled (list ! j)]"
  define ls' where "ls' = saveShoppingList list' ls"
  have step: "toggleShoppingItem ident ls = Inr ls'"
    unfolding ls'_def list'_def by (rule toggle_present [OF assms j])
  have get': "getShoppingList ls' = Inr list'"
    by (simp add: ls'_def get_shopping_saved)
  have ids: "map item_id list' = map item_id list"
    using j(1) by (simp add: list'_def map_update toggled_def list_update_same_conv)
  have texts: "map item_text list' = map item_text list"
    using j(1) by (simp add: list'_def map_update toggled_def list_update_same_conv)
  have nth: "list' ! k = (if item_id (list ! k) = ident \<and> (\<forall>i<k. item_id (list ! i) \<noteq> ident)
                           then toggled (list ! k) else list ! k)" if "k < length list" for k
  proof (cases "k = j")
    case True
    with j show ?thesis by (simp add: list'_def)
  next
    case False
    then have "k < j \<or> j < k" by linarith
    with j have "\<not> (item_id (list ! k) = ident \<and> (\<forall>i<k. item_id (list ! i) \<noteq> ident))"
      by auto
    moreover have "list' ! k = list ! k"
      using False by (simp add: list'_def)
    ultimately show ?thesis by auto
  qed
  have j': "j < length list'" "item_id (list' ! j) = ident" "\<forall>i<j. item_id (list' ! i) \<noteq> ident"
    using j by (simp_all add: list'_def toggled_def)
  have "toggleShoppingItem ident ls' = Inr (saveShoppingList (list'[j := toggled (list' ! j)]) ls')"
    by (rule toggle_present [OF get' j'])
  moreover have "list'[j := toggled (list' ! j)] = list"
    using j(1) by (simp add: list'_def toggled_def list_update_same_conv)
  moreover have "shoppingList ls = Some (Json list)"
    using assms j(1) by (intro get_shopping_nonempty) auto
  ultimately have again: "toggleShoppingItem ident ls' = Inr ls"
    by (simp add: ls'_def saveShoppingList_def)
  have frame: "savedRecipes ls' = savedRecipes ls" "recipeDraft ls' = recipeDraft ls"
    by (simp_all add: ls'_def saveShoppingList_def)
  have only: "(\<forall>i\<in>set list. item_id i \<noteq> ident) \<longrightarrow> ls' = ls"
    using True by blast
  have len: "length list' = length list"
    by (simp add: list'_def)
  have each: "\<forall>k<length list.
      list' ! k = (if item_id (list ! k) = ident \<and> (\<forall>i<k. item_id (list ! i) \<noteq> ident)
                   then toggled (list ! k) else list ! k)"
    using nth by blast
  from step get' len ids texts each frame again only show ?thesis
    by blast
qed

theorem toggle_frame_witness:
  "toggleShoppingItem ''b2'' store1 =
     Inr (store1\<lparr>shoppingList := Some (Json [shopping0 ! 0, toggled (shopping0 ! 1)])\<rparr>) \<and>
   toggleShoppingItem ''b2''
     (store1\<lparr>shoppingList := Some (Json [shopping0 ! 0, toggled (shopping0 ! 1)])\<rparr>) = Inr store1 \<and>
   toggleShoppingItem ''zz'' store1 = Inr store1"
  using toggle_frame [of store1 shopping0 "''b2''"] toggle_frame [of store1 shopping0 "''zz''"]
  by (simp add: store1_def shopping0_def toggleShoppingItem_def getShoppingList_def
        saveShoppingList_def toggled_def Let_def)

subsection \<open>Adding to the shopping list\<close>







text \<open>The other two writers of the list keep the invariant of the shopping list too: a
  toggle leaves the texts as they are, and the cleared list is empty.\<close>

lemma toggle_keeps_no_case_duplicates:
  assumes "getShoppingList ls = Inr list" and "no_case_duplicates list"
    and "toggleShoppingItem ident ls = Inr ls'" and "getShoppingList ls' = Inr list'"
  shows "no_case_duplicates list'"
proof (cases "\<exists>i\<in>set list. item_id i = ident")
  case False
  then have "toggleShoppingItem ident ls = Inr ls"
    using toggle_absent [OF assms(1)] by simp
  with assms show ?thesis by simp
next
  case True
  then obtain j where j: "j < length list" "item_id (list ! j) = ident"
      "\<forall>i<j. item_id (list ! i) \<noteq> ident"
    using first_match_exists [of list "\<lambda>i. item_id i = ident"] by blast
  have "ls' = saveShoppingList (list[j := toggled (list ! j)]) ls"
    using toggle_present [OF assms(1) j] assms(3) by simp
  then have "list' = list[j := toggled (list ! j)]"
    using assms(4) by (simp add: get_shopping_saved)
  moreover have "map item_text (list[j := toggled (list ! j)]) = map item_text list"
    using j(1) by (simp add: map_update toggled_def list_update_same_conv)
  ultimately have "map (\<lambda>item. toLowerCase (item_text item)) list' =
      map (\<lambda>item. toLowerCase (item_text item)) list"
    by (metis (no_types, lifting) map_map comp_apply map_eq_conv)
  with assms(2) show ?thesis
    by (simp add: no_case_duplicates_def)
qed

lemma clear_keeps_no_case_duplicates:
  "getShoppingList (saveShoppingList [] ls) = Inr [] \<and> no_case_duplicates []"
  by (simp add: get_shopping_saved no_case_duplicates_def)

subsection \<open>Saving a recipe\<close>

text \<open>What \<open>saveRecipeToStorage\<close> does: the conflict is a stored recipe of exactly the
  same name.\<close>

lemma save_recipe_exact:
  assumes "getSavedRecipes ls = Inr saved"
  shows "saveRecipeToStorage answer r ls =
           Inr (if \<exists>sr\<in>set saved. recipeName sr = recipeName r
                then (if answer
                      then (True, ls\<lparr>savedRecipes := Some (Json
                              (saved[nat (findIndex (\<lambda>sr. recipeName sr = recipeName r) saved) := r]))\<rparr>)
                      else (False, ls))
                else (True, ls\<lparr>savedRecipes := Some (Json (saved @ [r]))\<rparr>))"
proof (cases "\<exists>sr\<in>set saved. recipeName sr = recipeName r")
  case True
  then have "\<not> findIndex (\<lambda>sr. recipeName sr = recipeName r) saved < 0"
    by (simp add: findIndex_neg_iff)
  with True assms show ?thesis
    by (simp add: saveRecipeToStorage_def list_ex_iff Let_def)
next
  case False
  with assms show ?thesis
    by (simp add: saveRecipeToStorage_def list_ex_iff)
qed

text \<open>
  C1 asks for a conflict when a stored name equals the new one up to case. The code compares
  with \<open>===\<close>: saving "pasta" over a stored "Pasta" without confirmation returns
  \<open>true\<close> and appends a second entry, although \<open>removeRecipeFromStorage\<close> compares the
  lower-cased names and removes both entries at once.
\<close>

theorem save_recipe_compares_names_exactly:
  "toLowerCase (recipeName pasta) = toLowerCase (recipeName pasta_again) \<and>
   saveRecipeToStorage False pasta_again book =
     Inr (True, book\<lparr>savedRecipes := Some (Json [pasta, pasta_again])\<rparr>) \<and>
   removeRecipeFromStorage ''pasta'' (book\<lparr>savedRecipes := Some (Json [pasta, pasta_again])\<rparr>) =
     Inr (book\<lparr>savedRecipes := Some (Json [])\<rparr>)"
proof (intro conjI)
  show "toLowerCase (recipeName pasta) = toLowerCase (recipeName pasta_again)"
    by code_simp
  show "saveRecipeToStorage False pasta_again book =
     Inr (True, book\<lparr>savedRecipes := Some (Json [pasta, pasta_again])\<rparr>)"
    by (simp add: saveRecipeToStorage_def getSavedRecipes_def book_def pasta_def pasta_again_def)
  show "removeRecipeFromStorage ''pasta''
          (book\<lparr>savedRecipes := Some (Json [pasta, pasta_again])\<rparr>) =
     Inr (book\<lparr>savedRecipes := Some (Json [])\<rparr>)"
    by code_simp
qed

subsection \<open>The draft\<close>

lemma trim_empty_iff: "trim p = [] \<longleftrightarrow> (\<forall>c\<in>set p. isWhiteSpace c)"
proof
  assume "trim p = []"
  then have all: "\<forall>c\<in>set (dropWhile isWhiteSpace p). isWhiteSpace c"
    by (simp add: trim_def dropWhile_eq_Nil_conv)
  have "dropWhile isWhiteSpace p = []"
  proof (cases "dropWhile isWhiteSpace p")
    case Nil
    then show ?thesis .
  next
    case (Cons c cs)
    then have "\<not> isWhiteSpace c"
      by (metis hd_dropWhile list.distinct(1) list.sel(1))
    with all Cons show ?thesis by simp
  qed
  then show "\<forall>c\<in>set p. isWhiteSpace c"
    by (simp add: dropWhile_eq_Nil_conv)
next
  assume "\<forall>c\<in>set p. isWhiteSpace c"
  then show "trim p = []"
    by (auto simp: trim_def dest: set_dropWhileD)
qed




section \<open>Properties of the quantity scaler\<close>

subsection \<open>Digits and decimal notation\<close>







lemma sep_not_digit: "isSep c \<Longrightarrow> \<not> isDigit c"
  by (auto simp: isSep_def isDigit_def)

lemma minus_not_digit: "\<not> isDigit (CHR ''-'')"
  by (simp add: isDigit_def)







subsection \<open>Reading a number\<close>

lemma digitsD: "digits s \<Longrightarrow> \<forall>c\<in>set s. isDigit c"
  by (simp add: digits_def list_all_iff)


lemma dropWhile_digits_only: "digits ip \<Longrightarrow> dropWhile isDigit ip = []"
  by (simp add: digitsD)

lemma takeWhile_digits_then:
  "digits ip \<Longrightarrow> \<not> isDigit c \<Longrightarrow> takeWhile isDigit (ip @ c # rest) = ip"
  by (simp add: digitsD takeWhile_append2)

lemma dropWhile_digits_then:
  "digits ip \<Longrightarrow> \<not> isDigit c \<Longrightarrow> dropWhile isDigit (ip @ c # rest) = c # rest"
  by (simp add: digitsD dropWhile_append2)








subsection \<open>Formatting the scaled value\<close>








subsection \<open>The matches of a line\<close>

lemma number_integer: "digits ip \<Longrightarrow> number ip"
  by (simp add: number_def dropWhile_digits_only)

lemma number_fraction:
  assumes "digits ip" and "isSep sep" and "digits fp"
  shows "number (ip @ sep # fp)"
  using assms sep_not_digit [OF assms(2)]
  by (simp add: number_def takeWhile_digits_then dropWhile_digits_then)


text \<open>What the regular expression matches at the start of a text.\<close>

lemma match_number_sound:
  assumes "match_number s = Some (m, r)"
  shows "s = m @ r" and "number m" and "r = [] \<or> \<not> isDigit (hd r)"
    and "digits m \<longrightarrow> \<not> (\<exists>c d t. r = c # d # t \<and> isSep c \<and> isDigit d)"
proof -
  let ?ip = "takeWhile isDigit s"
  let ?rest = "dropWhile isDigit s"
  have ip: "?ip \<noteq> []"
    using assms by (auto simp: match_number_def Let_def split: if_splits)
  then have dip: "digits ?ip"
    by (auto simp: digits_def list_all_iff dest: set_takeWhileD)
  have split: "s = ?ip @ ?rest"
    by simp
  have rest_hd: "?rest = [] \<or> \<not> isDigit (hd ?rest)"
    by (metis hd_dropWhile)
  consider (plain) "m = ?ip" "r = ?rest"
      "\<not> (\<exists>c cs. ?rest = c # cs \<and> isSep c \<and> takeWhile isDigit cs \<noteq> [])"
    | (frac) c cs where "?rest = c # cs" "isSep c" "takeWhile isDigit cs \<noteq> []"
      "m = ?ip @ c # takeWhile isDigit cs" "r = dropWhile isDigit cs"
    using assms ip by (auto simp: match_number_def Let_def split: if_splits list.splits)
  then have "s = m @ r \<and> number m \<and> (r = [] \<or> \<not> isDigit (hd r)) \<and>
      (digits m \<longrightarrow> \<not> (\<exists>c d t. r = c # d # t \<and> isSep c \<and> isDigit d))"
  proof cases
    case plain
    have "\<not> (\<exists>c d t. ?rest = c # d # t \<and> isSep c \<and> isDigit d)"
      using plain(3) by auto
    with plain(1,2) split dip rest_hd show ?thesis
      by (simp add: number_integer)
  next
    case frac
    have dfp: "digits (takeWhile isDigit cs)"
      using frac(3) by (auto simp: digits_def list_all_iff dest: set_takeWhileD)
    have "cs = takeWhile isDigit cs @ dropWhile isDigit cs"
      by simp
    then have "s = m @ r"
      using split frac(1,4,5) by (metis append.assoc append_Cons)
    moreover have "number m"
      unfolding frac(4) by (rule number_fraction [OF dip frac(2) dfp])
    moreover have "r = [] \<or> \<not> isDigit (hd r)"
      unfolding frac(5) by (metis hd_dropWhile)
    moreover have "\<not> digits m"
      using frac(2,4) sep_not_digit by (auto simp: digits_def list_all_iff)
    ultimately show ?thesis by blast
  qed
  then show "s = m @ r" and "number m" and "r = [] \<or> \<not> isDigit (hd r)"
    and "digits m \<longrightarrow> \<not> (\<exists>c d t. r = c # d # t \<and> isSep c \<and> isDigit d)"
    by blast+
qed





lemma segments_Match:
  "match_number (c # cs) = Some (m, r) \<Longrightarrow> segments (c # cs) = Match m # segments r"
  by simp

declare segments.simps(2) [simp del]


lemma flatten_Cons: "flatten (seg # segs) = segment_text seg @ flatten segs"
  by (simp add: flatten_def)

lemma flatten_segments: "flatten (segments line) = line"
proof (induction line rule: segments.induct)
  case 1
  show ?case by (simp add: flatten_def)
next
  case (2 c cs)
  show ?case
  proof (cases "match_number (c # cs)")
    case None
    then have "segments (c # cs) = Lit c # segments cs"
      by (simp add: segments.simps(2))
    with 2(1) None show ?thesis
      by (simp add: flatten_Cons segment_text_def)
  next
    case (Some mr)
    obtain m r where mr: "mr = (m, r)" by (cases mr)
    have sound: "match_number (c # cs) = Some (m, r)"
      using Some mr by simp
    have "flatten (segments (c # cs)) = m @ flatten (segments r)"
      by (simp add: segments_Match [OF sound] flatten_Cons segment_text_def)
    also have "flatten (segments r) = r"
      using 2(2) Some mr by simp
    also have "m @ r = c # cs"
      by (rule match_number_sound(1) [OF sound, symmetric])
    finally show ?thesis .
  qed
qed






subsection \<open>The callback on a match\<close>










subsection \<open>Scaling there and back\<close>

























end
